theory Spec2Isabelle
  imports Main
begin

section \<open>Strings\<close>

text \<open>
  A string is a list of code units (\<^typ>\<open>string\<close>). The policy uses
  \<^verbatim>\<open>toUpperCase\<close>, \<^verbatim>\<open>startsWith\<close>, \<^verbatim>\<open>endsWith\<close>, \<^verbatim>\<open>split\<close>, \<^verbatim>\<open>length\<close> and
  \<^verbatim>\<open>===\<close> on strings. All but the first compare or count code units and do not depend
  on what a code unit stands for. \<^verbatim>\<open>toUpperCase\<close> is embedded on the ASCII range,
  which holds every HTTP method name: the letters \<open>a\<close> to \<open>z\<close> (codes 97 to 122) move
  down by 32, every other code unit stays as it is. The case mappings of letters outside
  ASCII are not part of the embedding.
\<close>

definition toUpperCase_char :: "char \<Rightarrow> char" where
  "toUpperCase_char c =
     (let n = (of_char c :: nat)
      in if 97 \<le> n \<and> n \<le> 122 then char_of (n - 32) else c)"

definition toUpperCase :: "string \<Rightarrow> string" where
  "toUpperCase s = map toUpperCase_char s"

definition startsWith :: "string \<Rightarrow> string \<Rightarrow> bool" where
  "startsWith s pre = (take (length pre) s = pre)"

definition endsWith :: "string \<Rightarrow> string \<Rightarrow> bool" where
  "endsWith s suf = (length suf \<le> length s \<and> drop (length s - length suf) s = suf)"

text \<open>
  \<^verbatim>\<open>s.split("/")\<close>: the pieces of \<open>s\<close> between the separators, in order. The result is
  never empty: the empty string splits into one empty piece. The source only ever splits
  on a one-character separator, which is the argument \<open>sep\<close>. The recursive call never
  returns the empty list, so the first branch of the \<open>case\<close> is never taken.
\<close>

fun split_str :: "char \<Rightarrow> string \<Rightarrow> string list" where
  "split_str sep [] = [[]]"
| "split_str sep (c # cs) =
     (if c = sep then [] # split_str sep cs
      else (case split_str sep cs of
              [] \<Rightarrow> [[c]]
            | w # ws \<Rightarrow> (c # w) # ws))"

text \<open>The inverse of splitting, used to state what \<^const>\<open>split_str\<close> computes.\<close>

fun join_str :: "char \<Rightarrow> string list \<Rightarrow> string" where
  "join_str sep [] = []"
| "join_str sep [w] = w"
| "join_str sep (w # v # ws) = w @ sep # join_str sep (v # ws)"

section \<open>The allowlist (src/allowlist.ts)\<close>

text \<open>
  The file holds the module twice: an earlier revision with two tiers (reads and
  allowlisted writes), then the revision with three tiers (reads, read-only POST queries
  recognised by suffix, allowlisted writes). The table and \<open>matchPathPattern\<close> are the
  same in both. The embedding is of the three-tier revision.
\<close>

record AllowlistEntry =
  entry_method :: string
  entry_path :: string

definition WRITE_ALLOWLIST :: "AllowlistEntry list" where
  "WRITE_ALLOWLIST =
     [\<lparr>entry_method = ''POST'', entry_path = ''/api/v1/notebooks''\<rparr>,
      \<lparr>entry_method = ''PUT'', entry_path = ''/api/v1/notebooks/{notebook_id}''\<rparr>,
      \<lparr>entry_method = ''DELETE'', entry_path = ''/api/v1/notebooks/{notebook_id}''\<rparr>,
      \<lparr>entry_method = ''POST'', entry_path = ''/api/v1/dashboard''\<rparr>,
      \<lparr>entry_method = ''PUT'', entry_path = ''/api/v1/dashboard/{dashboard_id}''\<rparr>,
      \<lparr>entry_method = ''DELETE'', entry_path = ''/api/v1/dashboard/{dashboard_id}''\<rparr>]"

definition SAFE_POST_SUFFIXES :: "string list" where
  "SAFE_POST_SUFFIXES = [''/search'', ''/aggregate'', ''/analytics'', ''/query'', ''/estimate'']"

definition READ_METHODS :: "string set" where
  "READ_METHODS = {''GET'', ''HEAD''}"

definition isSafePost :: "string \<Rightarrow> string \<Rightarrow> bool" where
  "isSafePost m p =
     (m = ''POST'' \<and> list_ex (\<lambda>suffix. endsWith p suffix) SAFE_POST_SUFFIXES)"

text \<open>
  \<^verbatim>\<open>patternParts.every((pat, i) => ...)\<close> visits every pattern piece with its index; the
  index reads the concrete piece at the same position, which exists because the lengths
  were compared first.
\<close>

definition matchPathPattern :: "string \<Rightarrow> string \<Rightarrow> bool" where
  "matchPathPattern pattern concrete =
     (let patternParts = split_str CHR ''/'' pattern;
          concreteParts = split_str CHR ''/'' concrete
      in if length patternParts \<noteq> length concreteParts then False
         else list_all
                (\<lambda>(i, pat).
                   if startsWith pat ''{'' \<and> endsWith pat ''}''
                   then length (concreteParts ! i) > 0
                   else pat = concreteParts ! i)
                (enumerate 0 patternParts))"

text \<open>
  The two entry points read the module constant \<^const>\<open>WRITE_ALLOWLIST\<close>. The table is
  an argument of the \<open>_in\<close> forms so that properties of the scan can be stated for any
  table; the entry points are the \<open>_in\<close> forms at the module's table.
\<close>

definition isAllowedSpecEndpoint_in :: "AllowlistEntry list \<Rightarrow> string \<Rightarrow> string \<Rightarrow> bool" where
  "isAllowedSpecEndpoint_in table m p =
     (let upper = toUpperCase m
      in if upper \<in> READ_METHODS then True
         else if isSafePost upper p then True
         else list_ex (\<lambda>e. entry_method e = upper \<and> entry_path e = p) table)"

definition isAllowedRuntimeRequest_in :: "AllowlistEntry list \<Rightarrow> string \<Rightarrow> string \<Rightarrow> bool" where
  "isAllowedRuntimeRequest_in table m p =
     (let upper = toUpperCase m
      in if upper \<in> READ_METHODS then True
         else if isSafePost upper p then True
         else list_ex (\<lambda>e. entry_method e = upper \<and> matchPathPattern (entry_path e) p) table)"

definition isAllowedSpecEndpoint :: "string \<Rightarrow> string \<Rightarrow> bool" where
  "isAllowedSpecEndpoint m p = isAllowedSpecEndpoint_in WRITE_ALLOWLIST m p"

definition isAllowedRuntimeRequest :: "string \<Rightarrow> string \<Rightarrow> bool" where
  "isAllowedRuntimeRequest m p = isAllowedRuntimeRequest_in WRITE_ALLOWLIST m p"

section \<open>Concrete paths generated from a template\<close>

text \<open>
  The policy has no function that fills a template in: the caller of the runtime guard
  does it. To state how the two entry points relate, \<open>substituteParams vals t\<close> is the
  path obtained from the template \<open>t\<close> by replacing every segment of the form \<open>{name}\<close>
  (recognised by the same test as in \<^const>\<open>matchPathPattern\<close>) by the value that the
  list \<open>vals\<close> gives for \<open>name\<close>; a parameter without a value stays as it is. A
  parameter value is one URL path segment: it is not empty and holds no \<open>/\<close>.
\<close>

definition isParamValue :: "string \<Rightarrow> bool" where
  "isParamValue v = (v \<noteq> [] \<and> CHR ''/'' \<notin> set v)"

definition substituteSegment :: "(string \<times> string) list \<Rightarrow> string \<Rightarrow> string" where
  "substituteSegment vals seg =
     (if startsWith seg ''{'' \<and> endsWith seg ''}''
      then (case map_of vals (butlast (tl seg)) of None \<Rightarrow> seg | Some v \<Rightarrow> v)
      else seg)"

definition substituteParams :: "(string \<times> string) list \<Rightarrow> string \<Rightarrow> string" where
  "substituteParams vals t =
     join_str CHR ''/'' (map (substituteSegment vals) (split_str CHR ''/'' t))"

section \<open>The runtime gateway (src/executor.ts)\<close>

text \<open>
  \<^verbatim>\<open>datadog.request\<close> is embedded with its effects written out: the function returns
  the list of effects it performed, in order, and its outcome, \<open>Inl\<close> for a thrown error
  (a rejected promise) and \<open>Inr\<close> for the returned value. The platform is an argument:
  the \<^verbatim>\<open>URL\<close> class (construction may throw, \<^verbatim>\<open>searchParams.set\<close>, \<^verbatim>\<open>toString\<close>)
  and \<^verbatim>\<open>fetch\<close>.

  Values of the untyped parts of the options are represented by what the function does
  with them: a query value by its \<^verbatim>\<open>String(value)\<close> text (\<open>None\<close> for
  \<^verbatim>\<open>undefined\<close>), the body by its truthiness and its \<^verbatim>\<open>JSON.stringify\<close> outcome:
  \<open>NoBody\<close> is an absent or falsy body, \<open>JsonBody j\<close> a truthy body serialised to \<open>j\<close>,
  \<open>OpaqueBody\<close> a truthy body that \<^verbatim>\<open>JSON.stringify\<close> maps to \<^verbatim>\<open>undefined\<close>, and
  \<open>BadBody msg\<close> a truthy body on which \<^verbatim>\<open>JSON.stringify\<close> throws. A response carries
  what the function reads of it; \<open>text_result\<close> and \<open>json_result\<close> are the outcomes of
  \<^verbatim>\<open>response.text()\<close> and \<^verbatim>\<open>response.json()\<close>.
\<close>

datatype js_error = Error string | TypeError string | Rejected string

datatype body_arg =
    NoBody
  | JsonBody string
  | OpaqueBody
  | BadBody string

record DatadogRequestOptions =
  req_method :: string
  req_path :: string
  query :: "(string \<times> string option) list option"
  body :: body_arg

record DatadogConfig =
  apiKey :: string
  appKey :: string
  site :: string

record fetch_init =
  init_url :: string
  init_method :: string
  init_headers :: "(string \<times> string) list"
  init_body :: "string option"

record response =
  ok :: bool
  status :: nat
  header_content_type :: "string option"
  header_ratelimit_reset :: "string option"
  text_result :: "js_error + string"
  json_result :: "js_error + string"

datatype effect =
    NewURL string
  | SetTimeout nat
  | Fetch fetch_init
  | ClearTimeout

record 'u platform =
  newURL :: "string \<Rightarrow> 'u option"
  searchParams_set :: "'u \<Rightarrow> string \<Rightarrow> string \<Rightarrow> 'u"
  url_toString :: "'u \<Rightarrow> string"
  fetch :: "fetch_init \<Rightarrow> js_error + response"

text \<open>
  The text of a status code in a template literal: its decimal digits.
\<close>

definition digit_char :: "nat \<Rightarrow> char" where
  "digit_char d = ''0123456789'' ! d"

fun number_toString :: "nat \<Rightarrow> string" where
  "number_toString n =
     (if n < 10 then [digit_char n]
      else number_toString (n div 10) @ [digit_char (n mod 10)])"

definition includes_str :: "string \<Rightarrow> string \<Rightarrow> bool" where
  "includes_str s sub =
     list_ex (\<lambda>i. take (length sub) (drop i s) = sub) [0..<Suc (length s)]"

definition blockedMessage :: "string \<Rightarrow> string \<Rightarrow> string" where
  "blockedMessage m p =
     ''Blocked: '' @ m @ '' '' @ p @
     '' is not in the write allowlist. Only GET/HEAD and specific notebook/dashboard operations are permitted.''"

definition handleResponse :: "response \<Rightarrow> js_error + string" where
  "handleResponse r =
     (let responseContentType =
            (case header_content_type r of None \<Rightarrow> [] | Some c \<Rightarrow> c)
      in if \<not> ok r then
           (let errorBody =
                  (case text_result r of
                     Inl _ \<Rightarrow> ''(could not read error body)''
                   | Inr t \<Rightarrow> t);
                rateLimitMsg =
                  (case header_ratelimit_reset r of
                     None \<Rightarrow> []
                   | Some reset \<Rightarrow>
                       if status r = 429 \<and> reset \<noteq> []
                       then '' Rate limit resets in '' @ reset @ ''s.''
                       else [])
            in Inl (Error (''Datadog API error '' @ number_toString (status r) @ '': '' @
                           errorBody @ rateLimitMsg)))
         else if includes_str responseContentType ''application/json'' then json_result r
         else text_result r)"

definition request ::
  "'u platform \<Rightarrow> DatadogConfig \<Rightarrow> DatadogRequestOptions \<Rightarrow> effect list \<times> (js_error + string)"
where
  "request pf config options =
     (let m = req_method options; p = req_path options
      in if \<not> isAllowedRuntimeRequest m p then ([], Inl (Error (blockedMessage m p)))
         else
           (let href = ''https://api.'' @ site config @ p
            in case newURL pf href of
                 None \<Rightarrow> ([NewURL href], Inl (TypeError ''Invalid URL''))
               | Some url0 \<Rightarrow>
                   (let url =
                          (case query options of
                             None \<Rightarrow> url0
                           | Some entries \<Rightarrow>
                               foldl (\<lambda>u (key, v).
                                        case v of
                                          None \<Rightarrow> u
                                        | Some s \<Rightarrow> searchParams_set pf u key s)
                                     url0 entries);
                        headers0 = [(''DD-API-KEY'', apiKey config),
                                    (''DD-APPLICATION-KEY'', appKey config)];
                        json_header = [(''Content-Type'', ''application/json'')]
                    in case body options of
                         BadBody msg \<Rightarrow> ([NewURL href], Inl (TypeError msg))
                       | b \<Rightarrow>
                           (let headers = (if b = NoBody then headers0 else headers0 @ json_header);
                                requestBody = (case b of JsonBody j \<Rightarrow> Some j | _ \<Rightarrow> None);
                                init = \<lparr>init_url = url_toString pf url, init_method = m,
                                        init_headers = headers, init_body = requestBody\<rparr>;
                                outcome =
                                  (case fetch pf init of
                                     Inl e \<Rightarrow> Inl e
                                   | Inr r \<Rightarrow> handleResponse r)
                            in ([NewURL href, SetTimeout 30000, Fetch init, ClearTimeout],
                                outcome)))))"

section \<open>Facts about the string operations\<close>

lemma split_str_not_Nil: "split_str sep s \<noteq> []"
  by (induction s) (auto split: list.splits)

lemma split_str_no_sep: "w \<in> set (split_str sep s) \<Longrightarrow> sep \<notin> set w"
proof (induction s arbitrary: w)
  case Nil
  then show ?case by simp
next
  case (Cons c cs)
  show ?case
  proof (cases "c = sep")
    case True
    with Cons show ?thesis by auto
  next
    case False
    obtain v vs where vs: "split_str sep cs = v # vs"
      using split_str_not_Nil [of sep cs] by (cases "split_str sep cs") auto
    with Cons False show ?thesis by auto
  qed
qed

text \<open>
  Splitting and joining are inverse to each other: the pieces, put back together with the
  separator between them, give the string, and a non-empty list of separator-free pieces
  is what splitting its joined form returns. The two facts fix \<^const>\<open>split_str\<close>
  as the split on the separator.
\<close>

lemma join_split_str: "join_str sep (split_str sep s) = s"
proof (induction s)
  case Nil
  show ?case by simp
next
  case (Cons c cs)
  obtain v vs where vs: "split_str sep cs = v # vs"
    using split_str_not_Nil [of sep cs] by (cases "split_str sep cs") auto
  with Cons show ?case by (cases vs) auto
qed

lemma split_str_plain: "sep \<notin> set w \<Longrightarrow> split_str sep w = [w]"
  by (induction w) auto

lemma split_str_append:
  "sep \<notin> set w \<Longrightarrow> split_str sep (w @ sep # rest) = w # split_str sep rest"
  by (induction w) auto

lemma split_join_str:
  "ws \<noteq> [] \<Longrightarrow> \<forall>w\<in>set ws. sep \<notin> set w \<Longrightarrow> split_str sep (join_str sep ws) = ws"
  by (induction sep ws rule: join_str.induct) (auto simp: split_str_plain split_str_append)

lemma endsWith_iff: "endsWith s suf \<longleftrightarrow> (\<exists>pre. s = pre @ suf)"
proof
  assume "endsWith s suf"
  then have "s = take (length s - length suf) s @ suf"
    by (metis append_take_drop_id endsWith_def)
  then show "\<exists>pre. s = pre @ suf" ..
next
  assume "\<exists>pre. s = pre @ suf"
  then show "endsWith s suf" by (auto simp: endsWith_def)
qed

lemma startsWith_single: "startsWith s [c] \<longleftrightarrow> s \<noteq> [] \<and> hd s = c"
  by (cases s) (auto simp: startsWith_def)

lemma endsWith_single: "endsWith s [c] \<longleftrightarrow> s \<noteq> [] \<and> last s = c"
proof (cases s rule: rev_cases)
  case Nil
  then show ?thesis by (simp add: endsWith_def)
next
  case (snoc ys y)
  then show ?thesis by (auto simp: endsWith_def)
qed

lemma list_all_enumerate:
  "list_all (\<lambda>(i, x). P i x) (enumerate n xs) \<longleftrightarrow> (\<forall>i<length xs. P (n + i) (xs ! i))"
proof (induction xs arbitrary: n)
  case Nil
  show ?case by simp
next
  case (Cons x xs)
  show ?case
    by (simp add: Cons.IH All_less_Suc2)
qed

lemma toUpperCase_char_idem: "toUpperCase_char (toUpperCase_char c) = toUpperCase_char c"
  by (auto simp: toUpperCase_char_def Let_def)

lemma toUpperCase_idem: "toUpperCase (toUpperCase s) = toUpperCase s"
  by (simp add: toUpperCase_def toUpperCase_char_idem)

section \<open>The path pattern matcher\<close>

lemma matchPathPattern_positions:
  "matchPathPattern t c \<longleftrightarrow>
     length (split_str CHR ''/'' t) = length (split_str CHR ''/'' c) \<and>
     (\<forall>i<length (split_str CHR ''/'' t).
        if startsWith (split_str CHR ''/'' t ! i) ''{'' \<and> endsWith (split_str CHR ''/'' t ! i) ''}''
        then 0 < length (split_str CHR ''/'' c ! i)
        else split_str CHR ''/'' t ! i = split_str CHR ''/'' c ! i)"
  unfolding matchPathPattern_def Let_def list_all_enumerate by auto

text \<open>
  C3. \<open>matchPathPattern template concrete\<close> holds exactly when the two strings split on
  \<open>/\<close> into the same number of segments and, at every position, either the template
  segment starts with \<open>{\<close> and ends with \<open>}\<close> and the concrete segment has length at least
  1, or the two segments are equal. No segment of the concrete path holds a \<open>/\<close>, so a
  parameter never matches across a segment boundary. The four examples of the
  specification evaluate as stated.
\<close>

theorem matchPathPattern_segmentwise:
  "(matchPathPattern t c \<longleftrightarrow>
      length (split_str CHR ''/'' t) = length (split_str CHR ''/'' c) \<and>
      (\<forall>i<length (split_str CHR ''/'' t).
         (startsWith (split_str CHR ''/'' t ! i) ''{'' \<and>
          endsWith (split_str CHR ''/'' t ! i) ''}'' \<and>
          1 \<le> length (split_str CHR ''/'' c ! i)) \<or>
         split_str CHR ''/'' t ! i = split_str CHR ''/'' c ! i)) \<and>
   (\<forall>seg\<in>set (split_str CHR ''/'' c). CHR ''/'' \<notin> set seg) \<and>
   matchPathPattern ''/a/{id}/b'' ''/a/123/b'' \<and>
   \<not> matchPathPattern ''/a/{id}/b'' ''/a//b'' \<and>
   \<not> matchPathPattern ''/a/{id}'' ''/a/123/extra'' \<and>
   matchPathPattern ''/a/b'' ''/a/b''"
proof -
  have iff: "matchPathPattern t c \<longleftrightarrow>
      length (split_str CHR ''/'' t) = length (split_str CHR ''/'' c) \<and>
      (\<forall>i<length (split_str CHR ''/'' t).
         (startsWith (split_str CHR ''/'' t ! i) ''{'' \<and>
          endsWith (split_str CHR ''/'' t ! i) ''}'' \<and>
          1 \<le> length (split_str CHR ''/'' c ! i)) \<or>
         split_str CHR ''/'' t ! i = split_str CHR ''/'' c ! i)"
    unfolding matchPathPattern_positions
    by (auto simp: startsWith_single endsWith_single Suc_le_eq)
  have segs: "\<forall>seg\<in>set (split_str CHR ''/'' c). CHR ''/'' \<notin> set seg"
    using split_str_no_sep by blast
  have e1: "matchPathPattern ''/a/{id}/b'' ''/a/123/b''" by code_simp
  have e2: "\<not> matchPathPattern ''/a/{id}/b'' ''/a//b''" by code_simp
  have e3: "\<not> matchPathPattern ''/a/{id}'' ''/a/123/extra''" by code_simp
  have e4: "matchPathPattern ''/a/b'' ''/a/b''" by code_simp
  from iff segs e1 e2 e3 e4 show ?thesis by blast
qed

theorem matchPathPattern_segmentwise_witness:
  "matchPathPattern ''/api/v1/notebooks/{notebook_id}'' ''/api/v1/notebooks/48213'' \<and>
   length (split_str CHR ''/'' ''/api/v1/notebooks/{notebook_id}'') =
   length (split_str CHR ''/'' ''/api/v1/notebooks/48213'') \<and>
   CHR ''/'' \<notin> set (split_str CHR ''/'' ''/api/v1/notebooks/48213'' ! 4)"
proof -
  have m: "matchPathPattern ''/api/v1/notebooks/{notebook_id}'' ''/api/v1/notebooks/48213''"
    by code_simp
  have s: "split_str CHR ''/'' ''/api/v1/notebooks/48213'' ! 4
             \<in> set (split_str CHR ''/'' ''/api/v1/notebooks/48213'')"
    by simp
  from m s
    matchPathPattern_segmentwise
      [of "''/api/v1/notebooks/{notebook_id}''" "''/api/v1/notebooks/48213''"]
  show ?thesis by blast
qed


section \<open>The two entry points\<close>

lemma isSafePost_iff:
  "isSafePost m p \<longleftrightarrow>
     m = ''POST'' \<and>
     (\<exists>suffix\<in>{''/search'', ''/aggregate'', ''/analytics'', ''/query'', ''/estimate''}.
        \<exists>pre. p = pre @ suffix)"
  by (simp add: isSafePost_def SAFE_POST_SUFFIXES_def endsWith_iff)

lemma isAllowedRuntimeRequest_in_iff:
  "isAllowedRuntimeRequest_in table m p \<longleftrightarrow>
     toUpperCase m = ''GET'' \<or> toUpperCase m = ''HEAD'' \<or>
     isSafePost (toUpperCase m) p \<or>
     (\<exists>e\<in>set table. entry_method e = toUpperCase m \<and> matchPathPattern (entry_path e) p)"
  by (auto simp: isAllowedRuntimeRequest_in_def Let_def READ_METHODS_def list_ex_iff)

lemma isAllowedSpecEndpoint_in_iff:
  "isAllowedSpecEndpoint_in table m p \<longleftrightarrow>
     toUpperCase m = ''GET'' \<or> toUpperCase m = ''HEAD'' \<or>
     isSafePost (toUpperCase m) p \<or>
     (\<exists>e\<in>set table. entry_method e = toUpperCase m \<and> entry_path e = p)"
  by (auto simp: isAllowedSpecEndpoint_in_def Let_def READ_METHODS_def list_ex_iff)

text \<open>
  C1. \<open>isAllowedRuntimeRequest method path\<close> is true exactly when the uppercased method
  is GET or HEAD, or it is POST and the path ends with one of \<open>/search\<close>, \<open>/aggregate\<close>,
  \<open>/analytics\<close>, \<open>/query\<close>, \<open>/estimate\<close>, or some entry of the write allowlist has the
  uppercased method and a path pattern that matches the path; in every other case it is
  false. POST \<open>/api/v2/logs/events/search\<close> is allowed although no allowlist entry
  matches that path.
\<close>

theorem isAllowedRuntimeRequest_decision:
  "(isAllowedRuntimeRequest m p \<longleftrightarrow>
      toUpperCase m = ''GET'' \<or> toUpperCase m = ''HEAD'' \<or>
      (toUpperCase m = ''POST'' \<and>
       (\<exists>suffix\<in>{''/search'', ''/aggregate'', ''/analytics'', ''/query'', ''/estimate''}.
          \<exists>pre. p = pre @ suffix)) \<or>
      (\<exists>e\<in>set WRITE_ALLOWLIST.
         entry_method e = toUpperCase m \<and> matchPathPattern (entry_path e) p)) \<and>
   isAllowedRuntimeRequest ''POST'' ''/api/v2/logs/events/search'' \<and>
   \<not> (\<exists>e\<in>set WRITE_ALLOWLIST. matchPathPattern (entry_path e) ''/api/v2/logs/events/search'')"
proof -
  have iff: "isAllowedRuntimeRequest m p \<longleftrightarrow>
      toUpperCase m = ''GET'' \<or> toUpperCase m = ''HEAD'' \<or>
      (toUpperCase m = ''POST'' \<and>
       (\<exists>suffix\<in>{''/search'', ''/aggregate'', ''/analytics'', ''/query'', ''/estimate''}.
          \<exists>pre. p = pre @ suffix)) \<or>
      (\<exists>e\<in>set WRITE_ALLOWLIST.
         entry_method e = toUpperCase m \<and> matchPathPattern (entry_path e) p)"
    unfolding isAllowedRuntimeRequest_def isAllowedRuntimeRequest_in_iff isSafePost_iff ..
  have ex: "isAllowedRuntimeRequest ''POST'' ''/api/v2/logs/events/search''"
    by code_simp
  have "\<not> list_ex (\<lambda>e. matchPathPattern (entry_path e) ''/api/v2/logs/events/search'') WRITE_ALLOWLIST"
    by code_simp
  then have none:
    "\<not> (\<exists>e\<in>set WRITE_ALLOWLIST. matchPathPattern (entry_path e) ''/api/v2/logs/events/search'')"
    by (simp add: list_ex_iff)
  from iff ex none show ?thesis by blast
qed

theorem isAllowedRuntimeRequest_decision_witness:
  "isAllowedRuntimeRequest ''delete'' ''/api/v1/notebooks/99'' \<and>
   \<lparr>entry_method = ''DELETE'', entry_path = ''/api/v1/notebooks/{notebook_id}''\<rparr> \<in> set WRITE_ALLOWLIST \<and>
   \<not> isAllowedRuntimeRequest ''DELETE'' ''/api/v1/notebooks''"
proof -
  have u: "toUpperCase ''delete'' = ''DELETE''" by code_simp
  have e: "\<lparr>entry_method = ''DELETE'', entry_path = ''/api/v1/notebooks/{notebook_id}''\<rparr> \<in> set WRITE_ALLOWLIST"
    by (simp add: WRITE_ALLOWLIST_def)
  have mt: "matchPathPattern ''/api/v1/notebooks/{notebook_id}'' ''/api/v1/notebooks/99''"
    by code_simp
  have "\<exists>e\<in>set WRITE_ALLOWLIST.
      entry_method e = toUpperCase ''delete'' \<and> matchPathPattern (entry_path e) ''/api/v1/notebooks/99''"
    unfolding u by (simp add: WRITE_ALLOWLIST_def mt)
  then have pos: "isAllowedRuntimeRequest ''delete'' ''/api/v1/notebooks/99''"
    using isAllowedRuntimeRequest_decision [of "''delete''" "''/api/v1/notebooks/99''"]
    by blast
  have neg: "\<not> isAllowedRuntimeRequest ''DELETE'' ''/api/v1/notebooks''"
    by code_simp
  from pos e neg show ?thesis by blast
qed

text \<open>
  C2. \<open>isAllowedSpecEndpoint method path\<close> is true exactly when the uppercased method is
  GET or HEAD, or it is POST and the path ends with one of the safe-read suffixes, or the
  uppercased method and the path are equal, as strings, to the method and path of some
  entry of the write allowlist; otherwise it is false. The comparison is string equality:
  PUT on the template \<open>/api/v1/notebooks/{notebook_id}\<close> is kept, PUT on the concrete
  \<open>/api/v1/notebooks/123\<close> is not.
\<close>

theorem isAllowedSpecEndpoint_decision:
  "(isAllowedSpecEndpoint m p \<longleftrightarrow>
      toUpperCase m = ''GET'' \<or> toUpperCase m = ''HEAD'' \<or>
      (toUpperCase m = ''POST'' \<and>
       (\<exists>suffix\<in>set SAFE_POST_SUFFIXES. \<exists>pre. p = pre @ suffix)) \<or>
      (\<exists>e\<in>set WRITE_ALLOWLIST. entry_method e = toUpperCase m \<and> entry_path e = p)) \<and>
   isAllowedSpecEndpoint ''PUT'' ''/api/v1/notebooks/{notebook_id}'' \<and>
   \<not> isAllowedSpecEndpoint ''PUT'' ''/api/v1/notebooks/123''"
proof -
  have iff: "isAllowedSpecEndpoint m p \<longleftrightarrow>
      toUpperCase m = ''GET'' \<or> toUpperCase m = ''HEAD'' \<or>
      (toUpperCase m = ''POST'' \<and>
       (\<exists>suffix\<in>set SAFE_POST_SUFFIXES. \<exists>pre. p = pre @ suffix)) \<or>
      (\<exists>e\<in>set WRITE_ALLOWLIST. entry_method e = toUpperCase m \<and> entry_path e = p)"
    unfolding isAllowedSpecEndpoint_def isAllowedSpecEndpoint_in_iff isSafePost_iff
    by (simp add: SAFE_POST_SUFFIXES_def)
  have e1: "isAllowedSpecEndpoint ''PUT'' ''/api/v1/notebooks/{notebook_id}''"
    by code_simp
  have e2: "\<not> isAllowedSpecEndpoint ''PUT'' ''/api/v1/notebooks/123''"
    by code_simp
  from iff e1 e2 show ?thesis by blast
qed

theorem isAllowedSpecEndpoint_decision_witness:
  "isAllowedSpecEndpoint ''post'' ''/api/v1/dashboard'' \<and>
   \<lparr>entry_method = ''POST'', entry_path = ''/api/v1/dashboard''\<rparr> \<in> set WRITE_ALLOWLIST"
proof -
  have u: "toUpperCase ''post'' = ''POST''" by code_simp
  have e: "\<lparr>entry_method = ''POST'', entry_path = ''/api/v1/dashboard''\<rparr> \<in> set WRITE_ALLOWLIST"
    by (simp add: WRITE_ALLOWLIST_def)
  have "\<exists>e\<in>set WRITE_ALLOWLIST.
      entry_method e = toUpperCase ''post'' \<and> entry_path e = ''/api/v1/dashboard''"
    unfolding u by (simp add: WRITE_ALLOWLIST_def)
  then have "isAllowedSpecEndpoint ''post'' ''/api/v1/dashboard''"
    using isAllowedSpecEndpoint_decision [of "''post''" "''/api/v1/dashboard''"]
    by blast
  with e show ?thesis by blast
qed

text \<open>
  C5. When the method is GET or HEAD in any letter case, that is, when its uppercase form
  is GET or HEAD, both entry points return true for every path, the empty path included.
\<close>

theorem read_methods_always_allowed:
  "toUpperCase m = ''GET'' \<or> toUpperCase m = ''HEAD'' \<Longrightarrow>
   isAllowedSpecEndpoint m p \<and> isAllowedRuntimeRequest m p"
  unfolding isAllowedSpecEndpoint_def isAllowedRuntimeRequest_def
    isAllowedSpecEndpoint_in_iff isAllowedRuntimeRequest_in_iff
  by blast

theorem read_methods_always_allowed_witness:
  "toUpperCase ''gEt'' = ''GET'' \<and>
   isAllowedSpecEndpoint ''gEt'' '''' \<and> isAllowedRuntimeRequest ''gEt'' ''''"
proof -
  have u: "toUpperCase ''gEt'' = ''GET''" by code_simp
  with read_methods_always_allowed [of "''gEt''" "''''"] show ?thesis by blast
qed

text \<open>
  C7. Malformed input is denied: the empty method is refused with every path, and every
  method whose uppercase form is neither GET nor HEAD is refused with the empty path, by
  both entry points.
\<close>

theorem malformed_input_denied:
  "\<not> isAllowedSpecEndpoint '''' p \<and> \<not> isAllowedRuntimeRequest '''' p \<and>
   (toUpperCase m \<noteq> ''GET'' \<and> toUpperCase m \<noteq> ''HEAD'' \<longrightarrow>
      \<not> isAllowedSpecEndpoint m '''' \<and> \<not> isAllowedRuntimeRequest m '''')"
proof -
  have up: "toUpperCase '''' = ''''" by (simp add: toUpperCase_def)
  have no_method: "\<forall>e\<in>set WRITE_ALLOWLIST. entry_method e \<noteq> ''''"
    by (simp add: WRITE_ALLOWLIST_def)
  have a: "\<not> isAllowedSpecEndpoint '''' p"
    unfolding isAllowedSpecEndpoint_def isAllowedSpecEndpoint_in_iff up isSafePost_def
    using no_method by simp
  have b: "\<not> isAllowedRuntimeRequest '''' p"
    unfolding isAllowedRuntimeRequest_def isAllowedRuntimeRequest_in_iff up isSafePost_def
    using no_method by simp
  have no_path: "\<forall>e\<in>set WRITE_ALLOWLIST. entry_path e \<noteq> ''''"
    by (simp add: WRITE_ALLOWLIST_def)
  have "\<not> list_ex (\<lambda>e. matchPathPattern (entry_path e) '''') WRITE_ALLOWLIST"
    by code_simp
  then have no_match: "\<forall>e\<in>set WRITE_ALLOWLIST. \<not> matchPathPattern (entry_path e) ''''"
    by (simp add: list_ex_iff)
  have no_suffix: "\<not> isSafePost u ''''" for u
    by (simp add: isSafePost_def SAFE_POST_SUFFIXES_def endsWith_def)
  have c: "\<not> isAllowedSpecEndpoint m ''''"
    if "toUpperCase m \<noteq> ''GET'' \<and> toUpperCase m \<noteq> ''HEAD''"
    unfolding isAllowedSpecEndpoint_def isAllowedSpecEndpoint_in_iff
    using that no_path no_suffix by blast
  have d: "\<not> isAllowedRuntimeRequest m ''''"
    if "toUpperCase m \<noteq> ''GET'' \<and> toUpperCase m \<noteq> ''HEAD''"
    unfolding isAllowedRuntimeRequest_def isAllowedRuntimeRequest_in_iff
    using that no_match no_suffix by blast
  from a b c d show ?thesis by blast
qed

theorem malformed_input_denied_witness:
  "toUpperCase ''post'' \<noteq> ''GET'' \<and> toUpperCase ''post'' \<noteq> ''HEAD'' \<and>
   \<not> isAllowedSpecEndpoint ''post'' '''' \<and> \<not> isAllowedRuntimeRequest ''post'' '''' \<and>
   \<not> isAllowedSpecEndpoint '''' ''/api/v1/notebooks'' \<and>
   \<not> isAllowedRuntimeRequest '''' ''/api/v1/notebooks''"
proof -
  have u: "toUpperCase ''post'' = ''POST''" by code_simp
  have n: "toUpperCase ''post'' \<noteq> ''GET'' \<and> toUpperCase ''post'' \<noteq> ''HEAD''"
    unfolding u by simp
  from n malformed_input_denied [of "''/api/v1/notebooks''" "''post''"]
  show ?thesis by blast
qed

text \<open>
  C8. The method is compared without regard to letter case: each entry point gives the
  same answer for a method and for its uppercase form, so that \<open>delete\<close> and \<open>DELETE\<close>
  are decided alike on every path.
\<close>

theorem method_case_insensitive:
  "isAllowedSpecEndpoint m p = isAllowedSpecEndpoint (toUpperCase m) p \<and>
   isAllowedRuntimeRequest m p = isAllowedRuntimeRequest (toUpperCase m) p \<and>
   isAllowedSpecEndpoint ''delete'' p = isAllowedSpecEndpoint ''DELETE'' p \<and>
   isAllowedRuntimeRequest ''delete'' p = isAllowedRuntimeRequest ''DELETE'' p"
proof -
  have s: "isAllowedSpecEndpoint x p = isAllowedSpecEndpoint (toUpperCase x) p" for x
    by (simp add: isAllowedSpecEndpoint_def isAllowedSpecEndpoint_in_def toUpperCase_idem)
  have r: "isAllowedRuntimeRequest x p = isAllowedRuntimeRequest (toUpperCase x) p" for x
    by (simp add: isAllowedRuntimeRequest_def isAllowedRuntimeRequest_in_def toUpperCase_idem)
  have u: "toUpperCase ''delete'' = ''DELETE''" by code_simp
  have v: "toUpperCase ''DELETE'' = ''DELETE''" by code_simp
  have s': "isAllowedSpecEndpoint ''delete'' p = isAllowedSpecEndpoint ''DELETE'' p"
    using s [of "''delete''"] by (simp only: u)
  have r': "isAllowedRuntimeRequest ''delete'' p = isAllowedRuntimeRequest ''DELETE'' p"
    using r [of "''delete''"] by (simp only: u)
  from s [of m] r [of m] s' r' show ?thesis by blast
qed

theorem method_case_insensitive_witness:
  "isAllowedSpecEndpoint ''Put'' ''/api/v1/dashboard/{dashboard_id}'' \<and>
   isAllowedSpecEndpoint (toUpperCase ''Put'') ''/api/v1/dashboard/{dashboard_id}'' \<and>
   isAllowedRuntimeRequest (toUpperCase ''Put'') ''/api/v1/dashboard/abc-def''"
proof -
  have a: "isAllowedSpecEndpoint ''Put'' ''/api/v1/dashboard/{dashboard_id}''" by code_simp
  have b: "isAllowedRuntimeRequest ''Put'' ''/api/v1/dashboard/abc-def''" by code_simp
  from a method_case_insensitive [of "''Put''" "''/api/v1/dashboard/{dashboard_id}''"]
  have c: "isAllowedSpecEndpoint (toUpperCase ''Put'') ''/api/v1/dashboard/{dashboard_id}''"
    by blast
  from b method_case_insensitive [of "''Put''" "''/api/v1/dashboard/abc-def''"]
  have d: "isAllowedRuntimeRequest (toUpperCase ''Put'') ''/api/v1/dashboard/abc-def''"
    by blast
  from a c d show ?thesis by blast
qed

text \<open>
  C9. The write allowlist is read as a set: two tables with the same set of entries, such
  as a table and any reordering of it or any copy of it with entries repeated, give the
  same decision in both entry points, for every method and path. In particular every
  table with the entries of \<open>WRITE_ALLOWLIST\<close> decides as the entry points do.
\<close>

theorem allowlist_is_a_set:
  assumes "set table' = set table"
  shows "isAllowedSpecEndpoint_in table' m p = isAllowedSpecEndpoint_in table m p \<and>
         isAllowedRuntimeRequest_in table' m p = isAllowedRuntimeRequest_in table m p \<and>
         (table = WRITE_ALLOWLIST \<longrightarrow>
            isAllowedSpecEndpoint_in table' m p = isAllowedSpecEndpoint m p \<and>
            isAllowedRuntimeRequest_in table' m p = isAllowedRuntimeRequest m p)"
  unfolding isAllowedSpecEndpoint_def isAllowedRuntimeRequest_def
    isAllowedSpecEndpoint_in_iff isAllowedRuntimeRequest_in_iff assms
  by blast

theorem allowlist_is_a_set_witness:
  "set (rev WRITE_ALLOWLIST @ WRITE_ALLOWLIST) = set WRITE_ALLOWLIST \<and>
   isAllowedSpecEndpoint_in (rev WRITE_ALLOWLIST @ WRITE_ALLOWLIST)
     ''PUT'' ''/api/v1/notebooks/{notebook_id}'' =
   isAllowedSpecEndpoint ''PUT'' ''/api/v1/notebooks/{notebook_id}'' \<and>
   isAllowedRuntimeRequest_in (rev WRITE_ALLOWLIST @ WRITE_ALLOWLIST)
     ''PUT'' ''/api/v1/notebooks/{notebook_id}'' =
   isAllowedRuntimeRequest ''PUT'' ''/api/v1/notebooks/{notebook_id}''"
proof -
  have s: "set (rev WRITE_ALLOWLIST @ WRITE_ALLOWLIST) = set WRITE_ALLOWLIST"
    by simp
  from s allowlist_is_a_set [OF s, of "''PUT''" "''/api/v1/notebooks/{notebook_id}''"]
  show ?thesis by blast
qed

text \<open>
  C10. Every string matches itself as a pattern, and so every method and path kept by
  \<open>isAllowedSpecEndpoint\<close> is accepted by \<open>isAllowedRuntimeRequest\<close>, templated paths
  passed verbatim included.
\<close>

theorem catalog_allowed_implies_runtime_allowed:
  "matchPathPattern p p \<and>
   (isAllowedSpecEndpoint m p \<longrightarrow> isAllowedRuntimeRequest m p)"
proof -
  have refl: "matchPathPattern q q" for q
    unfolding matchPathPattern_positions
    by (auto simp: startsWith_single)
  have "isAllowedRuntimeRequest m p" if "isAllowedSpecEndpoint m p"
    using that refl
    unfolding isAllowedSpecEndpoint_def isAllowedRuntimeRequest_def
      isAllowedSpecEndpoint_in_iff isAllowedRuntimeRequest_in_iff
    by blast
  with refl show ?thesis by blast
qed

theorem catalog_allowed_implies_runtime_allowed_witness:
  "isAllowedSpecEndpoint ''PUT'' ''/api/v1/notebooks/{notebook_id}'' \<and>
   isAllowedRuntimeRequest ''PUT'' ''/api/v1/notebooks/{notebook_id}'' \<and>
   matchPathPattern ''/api/v1/notebooks/{notebook_id}'' ''/api/v1/notebooks/{notebook_id}''"
proof -
  have a: "isAllowedSpecEndpoint ''PUT'' ''/api/v1/notebooks/{notebook_id}''" by code_simp
  from a catalog_allowed_implies_runtime_allowed
           [of "''/api/v1/notebooks/{notebook_id}''" "''PUT''"]
  show ?thesis by blast
qed

section \<open>The runtime gateway\<close>

text \<open>
  When the guard lets the call through, the URL can be built and the body can be
  serialised, the request is sent: the guard is the only thing between an allowed call
  and the network.
\<close>

lemma request_allowed_reaches_fetch:
  assumes "isAllowedRuntimeRequest (req_method options) (req_path options)"
    and "newURL pf (''https://api.'' @ site config @ req_path options) = Some u"
    and "\<forall>msg. body options \<noteq> BadBody msg"
  shows "\<exists>init. Fetch init \<in> set (fst (request pf config options)) \<and>
                init_method init = req_method options"
  using assms by (cases "body options") (simp_all add: request_def Let_def)

lemma request_denied:
  "\<not> isAllowedRuntimeRequest (req_method options) (req_path options) \<Longrightarrow>
   request pf config options =
     ([], Inl (Error (blockedMessage (req_method options) (req_path options))))"
  by (simp add: request_def Let_def)

text \<open>
  C6. When \<open>isAllowedRuntimeRequest\<close> returns false for the method and path of the
  options, \<open>datadog.request\<close> throws an error whose message names the method and the
  path and says that the pair is not in the write allowlist, and it performs no effect
  at all before that: no URL is constructed and nothing is fetched. A run that
  constructs the URL or calls fetch is a run on which the guard returned true.
\<close>

theorem request_blocked_before_any_io:
  "(\<not> isAllowedRuntimeRequest (req_method options) (req_path options) \<longrightarrow>
      request pf config options =
        ([], Inl (Error (''Blocked: '' @ req_method options @ '' '' @ req_path options @
           '' is not in the write allowlist. Only GET/HEAD and specific notebook/dashboard operations are permitted.'')))) \<and>
   ((\<exists>init. Fetch init \<in> set (fst (request pf config options))) \<longrightarrow>
      isAllowedRuntimeRequest (req_method options) (req_path options)) \<and>
   ((\<exists>href. NewURL href \<in> set (fst (request pf config options))) \<longrightarrow>
      isAllowedRuntimeRequest (req_method options) (req_path options))"
proof -
  have denied: "request pf config options =
      ([], Inl (Error (''Blocked: '' @ req_method options @ '' '' @ req_path options @
         '' is not in the write allowlist. Only GET/HEAD and specific notebook/dashboard operations are permitted.'')))"
    if "\<not> isAllowedRuntimeRequest (req_method options) (req_path options)"
    using request_denied [OF that, of pf config] by (simp only: blockedMessage_def)
  have silent: "set (fst (request pf config options)) = {}"
    if "\<not> isAllowedRuntimeRequest (req_method options) (req_path options)"
    using request_denied [OF that, of pf config] by simp
  have fetch_only: "isAllowedRuntimeRequest (req_method options) (req_path options)"
    if "\<exists>init. Fetch init \<in> set (fst (request pf config options))"
  proof (rule ccontr)
    assume "\<not> isAllowedRuntimeRequest (req_method options) (req_path options)"
    then have "set (fst (request pf config options)) = {}" by (rule silent)
    with that show False by simp
  qed
  have url_only: "isAllowedRuntimeRequest (req_method options) (req_path options)"
    if "\<exists>href. NewURL href \<in> set (fst (request pf config options))"
  proof (rule ccontr)
    assume "\<not> isAllowedRuntimeRequest (req_method options) (req_path options)"
    then have "set (fst (request pf config options)) = {}" by (rule silent)
    with that show False by simp
  qed
  show ?thesis
  proof (intro conjI impI)
    assume "\<not> isAllowedRuntimeRequest (req_method options) (req_path options)"
    then show "request pf config options =
      ([], Inl (Error (''Blocked: '' @ req_method options @ '' '' @ req_path options @
         '' is not in the write allowlist. Only GET/HEAD and specific notebook/dashboard operations are permitted.'')))"
      by (rule denied)
  next
    assume "\<exists>init. Fetch init \<in> set (fst (request pf config options))"
    then show "isAllowedRuntimeRequest (req_method options) (req_path options)"
      by (rule fetch_only)
  next
    assume "\<exists>href. NewURL href \<in> set (fst (request pf config options))"
    then show "isAllowedRuntimeRequest (req_method options) (req_path options)"
      by (rule url_only)
  qed
qed

theorem request_blocked_before_any_io_witness:
  "\<not> isAllowedRuntimeRequest ''DELETE'' ''/api/v2/security_monitoring/rules/abc'' \<and>
   request
     \<lparr>newURL = Some, searchParams_set = (\<lambda>u k v. u), url_toString = id,
      fetch = (\<lambda>init. Inl (Rejected ''offline''))\<rparr>
     \<lparr>apiKey = ''test-api-key'', appKey = ''test-app-key'', site = ''datadoghq.com''\<rparr>
     \<lparr>req_method = ''DELETE'', req_path = ''/api/v2/security_monitoring/rules/abc'',
      query = None, body = NoBody\<rparr> =
   ([], Inl (Error ''Blocked: DELETE /api/v2/security_monitoring/rules/abc is not in the write allowlist. Only GET/HEAD and specific notebook/dashboard operations are permitted.''))"
proof -
  have n: "\<not> isAllowedRuntimeRequest ''DELETE'' ''/api/v2/security_monitoring/rules/abc''"
    by code_simp
  from n request_blocked_before_any_io
    [of "\<lparr>req_method = ''DELETE'', req_path = ''/api/v2/security_monitoring/rules/abc'',
          query = None, body = NoBody\<rparr>"
        "\<lparr>newURL = Some, searchParams_set = (\<lambda>u k v. u), url_toString = id,
          fetch = (\<lambda>init. Inl (Rejected ''offline''))\<rparr>"
        "\<lparr>apiKey = ''test-api-key'', appKey = ''test-app-key'', site = ''datadoghq.com''\<rparr>"]
  show ?thesis by simp
qed

section \<open>Catalog time against request time\<close>

lemma matchPathPattern_list_all2:
  "matchPathPattern t c \<longleftrightarrow>
     list_all2 (\<lambda>pat seg. if startsWith pat ''{'' \<and> endsWith pat ''}''
                           then seg \<noteq> [] else pat = seg)
       (split_str CHR ''/'' t) (split_str CHR ''/'' c)"
  unfolding matchPathPattern_positions list_all2_conv_all_nth by auto

lemma substituteSegment_no_slash:
  assumes "\<forall>(name, v)\<in>set vals. isParamValue v" and "CHR ''/'' \<notin> set seg"
  shows "CHR ''/'' \<notin> set (substituteSegment vals seg)"
proof (cases "map_of vals (butlast (tl seg))")
  case None
  with assms(2) show ?thesis by (simp add: substituteSegment_def)
next
  case (Some v)
  then have "(butlast (tl seg), v) \<in> set vals" by (rule map_of_SomeD)
  with assms(1) have "isParamValue v" by blast
  with Some assms(2) show ?thesis by (simp add: substituteSegment_def isParamValue_def)
qed

lemma substituteSegment_param_nonempty:
  assumes "\<forall>(name, v)\<in>set vals. isParamValue v" and "seg \<noteq> []"
  shows "substituteSegment vals seg \<noteq> []"
proof (cases "map_of vals (butlast (tl seg))")
  case None
  with assms(2) show ?thesis by (simp add: substituteSegment_def)
next
  case (Some v)
  then have "(butlast (tl seg), v) \<in> set vals" by (rule map_of_SomeD)
  with assms(1) have "isParamValue v" by blast
  with Some assms(2) show ?thesis by (simp add: substituteSegment_def isParamValue_def)
qed

lemma substituteSegment_literal:
  "\<not> (startsWith seg ''{'' \<and> endsWith seg ''}'') \<Longrightarrow> substituteSegment vals seg = seg"
  by (auto simp: substituteSegment_def)

text \<open>
  The segments of a generated path are the segments of the template, each one
  substituted.
\<close>

lemma split_substituteParams:
  assumes "\<forall>(name, v)\<in>set vals. isParamValue v"
  shows "split_str CHR ''/'' (substituteParams vals t) =
         map (substituteSegment vals) (split_str CHR ''/'' t)"
  unfolding substituteParams_def
proof (rule split_join_str)
  show "map (substituteSegment vals) (split_str CHR ''/'' t) \<noteq> []"
    by (simp add: split_str_not_Nil)
  show "\<forall>w\<in>set (map (substituteSegment vals) (split_str CHR ''/'' t)). CHR ''/'' \<notin> set w"
    using substituteSegment_no_slash [OF assms] split_str_no_sep by auto
qed


text \<open>The four templates of the table, split, and what the safe-suffix test says of them.\<close>

lemma split_templates:
  "split_str CHR ''/'' ''/api/v1/notebooks'' = ['''', ''api'', ''v1'', ''notebooks'']"
  "split_str CHR ''/'' ''/api/v1/dashboard'' = ['''', ''api'', ''v1'', ''dashboard'']"
  "split_str CHR ''/'' ''/api/v1/notebooks/{notebook_id}'' =
     ['''', ''api'', ''v1'', ''notebooks'', ''{notebook_id}'']"
  "split_str CHR ''/'' ''/api/v1/dashboard/{dashboard_id}'' =
     ['''', ''api'', ''v1'', ''dashboard'', ''{dashboard_id}'']"
  by code_simp+

lemma braced_segments:
  "\<not> (startsWith '''' ''{'' \<and> endsWith '''' ''}'')"
  "\<not> (startsWith ''api'' ''{'' \<and> endsWith ''api'' ''}'')"
  "\<not> (startsWith ''v1'' ''{'' \<and> endsWith ''v1'' ''}'')"
  "\<not> (startsWith ''notebooks'' ''{'' \<and> endsWith ''notebooks'' ''}'')"
  "\<not> (startsWith ''dashboard'' ''{'' \<and> endsWith ''dashboard'' ''}'')"
  "startsWith ''{notebook_id}'' ''{'' \<and> endsWith ''{notebook_id}'' ''}''"
  "startsWith ''{dashboard_id}'' ''{'' \<and> endsWith ''{dashboard_id}'' ''}''"
  by code_simp+

lemma templates_not_safe_suffixed:
  "\<not> isSafePost u ''/api/v1/notebooks''"
  "\<not> isSafePost u ''/api/v1/dashboard''"
  "\<not> isSafePost u ''/api/v1/notebooks/{notebook_id}''"
  "\<not> isSafePost u ''/api/v1/dashboard/{dashboard_id}''"
proof -
  have "\<not> list_ex (endsWith ''/api/v1/notebooks'') SAFE_POST_SUFFIXES" by code_simp
  then show "\<not> isSafePost u ''/api/v1/notebooks''" by (simp add: isSafePost_def)
  have "\<not> list_ex (endsWith ''/api/v1/dashboard'') SAFE_POST_SUFFIXES" by code_simp
  then show "\<not> isSafePost u ''/api/v1/dashboard''" by (simp add: isSafePost_def)
  have "\<not> list_ex (endsWith ''/api/v1/notebooks/{notebook_id}'') SAFE_POST_SUFFIXES"
    by code_simp
  then show "\<not> isSafePost u ''/api/v1/notebooks/{notebook_id}''" by (simp add: isSafePost_def)
  have "\<not> list_ex (endsWith ''/api/v1/dashboard/{dashboard_id}'') SAFE_POST_SUFFIXES"
    by code_simp
  then show "\<not> isSafePost u ''/api/v1/dashboard/{dashboard_id}''" by (simp add: isSafePost_def)
qed

text \<open>
  A path generated from a template of the table matches that template and no other
  template of the table.
\<close>

lemma match_generated:
  assumes vals: "\<forall>(name, v)\<in>set vals. isParamValue v"
    and pat: "pat \<in> set (map entry_path WRITE_ALLOWLIST)"
    and t: "t \<in> set (map entry_path WRITE_ALLOWLIST)"
  shows "matchPathPattern pat (substituteParams vals t) \<longleftrightarrow> pat = t"
proof -
  have ne: "substituteSegment vals ''{notebook_id}'' \<noteq> []"
           "substituteSegment vals ''{dashboard_id}'' \<noteq> []"
    using substituteSegment_param_nonempty [OF vals] by simp_all
  have lit: "substituteSegment vals '''' = ''''"
            "substituteSegment vals ''api'' = ''api''"
            "substituteSegment vals ''v1'' = ''v1''"
            "substituteSegment vals ''notebooks'' = ''notebooks''"
            "substituteSegment vals ''dashboard'' = ''dashboard''"
    by (simp_all only: substituteSegment_literal braced_segments not_False_eq_True)
  from pat have pat': "pat = ''/api/v1/notebooks'' \<or> pat = ''/api/v1/dashboard'' \<or>
      pat = ''/api/v1/notebooks/{notebook_id}'' \<or> pat = ''/api/v1/dashboard/{dashboard_id}''"
    by (auto simp: WRITE_ALLOWLIST_def)
  from t have t': "t = ''/api/v1/notebooks'' \<or> t = ''/api/v1/dashboard'' \<or>
      t = ''/api/v1/notebooks/{notebook_id}'' \<or> t = ''/api/v1/dashboard/{dashboard_id}''"
    by (auto simp: WRITE_ALLOWLIST_def)
  from pat' t' show ?thesis
    unfolding matchPathPattern_list_all2 split_substituteParams [OF vals]
    by (elim disjE) (simp_all add: split_templates braced_segments lit ne)
qed

lemma runtime_of_generated:
  assumes t: "t \<in> set (map entry_path WRITE_ALLOWLIST)"
    and vals: "\<forall>(name, v)\<in>set vals. isParamValue v"
  shows "isAllowedRuntimeRequest m (substituteParams vals t) \<longleftrightarrow>
           isAllowedSpecEndpoint m t \<or> isSafePost (toUpperCase m) (substituteParams vals t)"
proof -
  have entries: "matchPathPattern (entry_path e) (substituteParams vals t) \<longleftrightarrow> entry_path e = t"
    if "e \<in> set WRITE_ALLOWLIST" for e
    using that by (intro match_generated [OF vals _ t]) simp
  from t have "t = ''/api/v1/notebooks'' \<or> t = ''/api/v1/dashboard'' \<or>
      t = ''/api/v1/notebooks/{notebook_id}'' \<or> t = ''/api/v1/dashboard/{dashboard_id}''"
    by (auto simp: WRITE_ALLOWLIST_def)
  then have template: "\<not> isSafePost (toUpperCase m) t"
    using templates_not_safe_suffixed by blast
  show ?thesis
    unfolding isAllowedSpecEndpoint_def isAllowedRuntimeRequest_def
      isAllowedSpecEndpoint_in_iff isAllowedRuntimeRequest_in_iff
    using entries template by blast
qed

text \<open>
  C4, as stated, fails. Take the allowlisted template \<open>/api/v1/notebooks/{notebook_id}\<close>.
  With the value \<open>search\<close> for the parameter, the generated path ends with the
  safe-read suffix \<open>/search\<close>, so a POST passes the runtime guard although POST on the
  template is not kept at catalog time. With the empty value, the generated path has an
  empty last segment, so a PUT is refused by the runtime guard although PUT on the
  template is kept.
\<close>

theorem catalog_runtime_consistency_counterexample:
  "''/api/v1/notebooks/{notebook_id}'' \<in> set (map entry_path WRITE_ALLOWLIST) \<and>
   isParamValue ''search'' \<and>
   substituteParams [(''notebook_id'', ''search'')] ''/api/v1/notebooks/{notebook_id}'' =
     ''/api/v1/notebooks/search'' \<and>
   isAllowedRuntimeRequest ''POST''
     (substituteParams [(''notebook_id'', ''search'')] ''/api/v1/notebooks/{notebook_id}'') \<and>
   \<not> isAllowedSpecEndpoint ''POST'' ''/api/v1/notebooks/{notebook_id}'' \<and>
   substituteParams [(''notebook_id'', '''')] ''/api/v1/notebooks/{notebook_id}'' =
     ''/api/v1/notebooks/'' \<and>
   \<not> isAllowedRuntimeRequest ''PUT''
     (substituteParams [(''notebook_id'', '''')] ''/api/v1/notebooks/{notebook_id}'') \<and>
   isAllowedSpecEndpoint ''PUT'' ''/api/v1/notebooks/{notebook_id}''"
proof -
  have a: "''/api/v1/notebooks/{notebook_id}'' \<in> set (map entry_path WRITE_ALLOWLIST)"
    by (simp add: WRITE_ALLOWLIST_def)
  have b: "isParamValue ''search''"
    by (simp add: isParamValue_def)
  have c: "substituteParams [(''notebook_id'', ''search'')] ''/api/v1/notebooks/{notebook_id}'' =
     ''/api/v1/notebooks/search''"
    by code_simp
  have d: "isAllowedRuntimeRequest ''POST'' ''/api/v1/notebooks/search''"
    by code_simp
  have e: "\<not> isAllowedSpecEndpoint ''POST'' ''/api/v1/notebooks/{notebook_id}''"
    by code_simp
  have f: "substituteParams [(''notebook_id'', '''')] ''/api/v1/notebooks/{notebook_id}'' =
     ''/api/v1/notebooks/''"
    by code_simp
  have g: "\<not> isAllowedRuntimeRequest ''PUT'' ''/api/v1/notebooks/''"
    by code_simp
  have h: "isAllowedSpecEndpoint ''PUT'' ''/api/v1/notebooks/{notebook_id}''"
    by code_simp
  from a b c d e f g h show ?thesis by (simp only: simp_thms)
qed

text \<open>
  C4, amended. Let \<open>t\<close> be a template of the write allowlist and \<open>p\<close> the path generated
  from \<open>t\<close> by values that are non-empty and hold no \<open>/\<close>. Whatever the method, if
  \<open>isAllowedSpecEndpoint\<close> keeps the method on \<open>t\<close> then \<open>isAllowedRuntimeRequest\<close>
  accepts it on \<open>p\<close>; and the two decisions are equal unless the uppercased method is
  POST and \<open>p\<close> ends with one of the safe-read suffixes.
\<close>

theorem catalog_runtime_consistency:
  assumes "t \<in> set (map entry_path WRITE_ALLOWLIST)"
    and "\<forall>(name, v)\<in>set vals. isParamValue v"
  shows "(isAllowedSpecEndpoint m t \<longrightarrow> isAllowedRuntimeRequest m (substituteParams vals t)) \<and>
         (\<not> (toUpperCase m = ''POST'' \<and>
             (\<exists>suffix\<in>set SAFE_POST_SUFFIXES. endsWith (substituteParams vals t) suffix)) \<longrightarrow>
            isAllowedRuntimeRequest m (substituteParams vals t) = isAllowedSpecEndpoint m t)"
  unfolding runtime_of_generated [OF assms] isSafePost_def list_ex_iff
  by blast

theorem catalog_runtime_consistency_witness:
  "''/api/v1/dashboard/{dashboard_id}'' \<in> set (map entry_path WRITE_ALLOWLIST) \<and>
   isParamValue ''abc-def'' \<and>
   isAllowedSpecEndpoint ''delete'' ''/api/v1/dashboard/{dashboard_id}'' \<and>
   isAllowedRuntimeRequest ''delete''
     (substituteParams [(''dashboard_id'', ''abc-def'')] ''/api/v1/dashboard/{dashboard_id}'') \<and>
   isAllowedRuntimeRequest ''post''
     (substituteParams [(''dashboard_id'', ''abc-def'')] ''/api/v1/dashboard/{dashboard_id}'') =
   isAllowedSpecEndpoint ''post'' ''/api/v1/dashboard/{dashboard_id}''"
proof -
  have a: "''/api/v1/dashboard/{dashboard_id}'' \<in> set (map entry_path WRITE_ALLOWLIST)"
    by (simp add: WRITE_ALLOWLIST_def)
  have b: "\<forall>(name, v)\<in>set [(''dashboard_id'', ''abc-def'')]. isParamValue v"
    by (simp add: isParamValue_def)
  have c: "isAllowedSpecEndpoint ''delete'' ''/api/v1/dashboard/{dashboard_id}''"
    by code_simp
  have "\<not> list_ex
           (endsWith (substituteParams [(''dashboard_id'', ''abc-def'')]
                        ''/api/v1/dashboard/{dashboard_id}''))
           SAFE_POST_SUFFIXES"
    by code_simp
  then have d: "\<not> (toUpperCase ''post'' = ''POST'' \<and>
       (\<exists>suffix\<in>set SAFE_POST_SUFFIXES.
          endsWith (substituteParams [(''dashboard_id'', ''abc-def'')]
                      ''/api/v1/dashboard/{dashboard_id}'') suffix))"
    by (simp add: list_ex_iff)
  from c catalog_runtime_consistency [OF a b, of "''delete''"]
  have e: "isAllowedRuntimeRequest ''delete''
     (substituteParams [(''dashboard_id'', ''abc-def'')] ''/api/v1/dashboard/{dashboard_id}'')"
    by blast
  from d catalog_runtime_consistency [OF a b, of "''post''"]
  have f: "isAllowedRuntimeRequest ''post''
     (substituteParams [(''dashboard_id'', ''abc-def'')] ''/api/v1/dashboard/{dashboard_id}'') =
   isAllowedSpecEndpoint ''post'' ''/api/v1/dashboard/{dashboard_id}''"
    by blast
  have b': "isParamValue ''abc-def''"
    by (simp add: isParamValue_def)
  from a b' c e f show ?thesis by (simp only: simp_thms)
qed

end
